theory Spec2Isabelle
  imports Main "HOL-Library.Multiset"
begin

section \<open>Python values used by \<^verbatim>\<open>main.py\<close>\<close>

text \<open>
  Python integers are unbounded, so they are \<^typ>\<open>int\<close>. A Python \<^verbatim>\<open>str\<close> is
  modelled as a \<^typ>\<open>string\<close> whose characters are the code points 0..255; structure
  files are plain ASCII text. Exceptions are values of \<open>py_error\<close>; a function that can
  raise returns \<open>py_error + 'a\<close> with \<open>Inl\<close> for the exception.
\<close>

datatype py_error =
    IndexError
  | IntegrityError
  | HTTPException int string

text \<open>The three \<^verbatim>\<open>HTTPException\<close>s the routes raise, under the names of the error taxonomy.\<close>

definition InvalidInput :: py_error where
  "InvalidInput = HTTPException 400 ''Please upload a .pdb file.''"

definition NotFound :: py_error where
  "NotFound = HTTPException 404 ''Protein not found''"

definition InvalidRange :: py_error where
  "InvalidRange = HTTPException 400 ''Invalid index range''"

subsection \<open>String operations\<close>

text \<open>\<^verbatim>\<open>str.isspace\<close> on the code points below 256: 9..13, 28..32, 133 and 160.\<close>

definition isspace :: "char \<Rightarrow> bool" where
  "isspace c =
     (let n = (of_char c :: nat)
      in (9 \<le> n \<and> n \<le> 13) \<or> (28 \<le> n \<and> n \<le> 32) \<or> n = 133 \<or> n = 160)"

text \<open>\<^verbatim>\<open>s.strip()\<close>: whitespace removed at both ends.\<close>

definition strip :: "string \<Rightarrow> string" where
  "strip s = rev (dropWhile isspace (rev (dropWhile isspace s)))"

text \<open>\<^verbatim>\<open>s[i:j]\<close> for constants \<open>0 \<le> i \<le> j\<close>: a slice never raises, it is cut at the end of \<open>s\<close>.\<close>

definition slice :: "'a list \<Rightarrow> nat \<Rightarrow> nat \<Rightarrow> 'a list" where
  "slice s i j = take (j - i) (drop i s)"

text \<open>\<^verbatim>\<open>s[i]\<close> for a constant \<open>0 \<le> i\<close>: raises \<^verbatim>\<open>IndexError\<close> when \<open>s\<close> has no position \<open>i\<close>.\<close>

definition getitem :: "'a list \<Rightarrow> nat \<Rightarrow> py_error + 'a" where
  "getitem s i = (if i < length s then Inr (s ! i) else Inl IndexError)"

definition startswith :: "string \<Rightarrow> string \<Rightarrow> bool" where
  "startswith s p = (take (length p) s = p)"

definition endswith :: "string \<Rightarrow> string \<Rightarrow> bool" where
  "endswith s p = (length p \<le> length s \<and> drop (length s - length p) s = p)"

text \<open>
  \<^verbatim>\<open>str.lower\<close> on the code points below 256: the letters A..Z and the Latin-1
  capitals 192..222 (without the multiplication sign 215) move up by 32.
\<close>

definition lower_char :: "char \<Rightarrow> char" where
  "lower_char c =
     (let n = (of_char c :: nat)
      in if (65 \<le> n \<and> n \<le> 90) \<or> (192 \<le> n \<and> n \<le> 222 \<and> n \<noteq> 215)
         then char_of (n + 32) else c)"

definition lower :: "string \<Rightarrow> string" where
  "lower s = map lower_char s"

text \<open>\<^verbatim>\<open>d.get(k, default)\<close> on a dict literal, kept as its list of items.\<close>

definition dict_get :: "('k \<times> 'v) list \<Rightarrow> 'k \<Rightarrow> 'v \<Rightarrow> 'v" where
  "dict_get d k dflt = (case map_of d k of Some v \<Rightarrow> v | None \<Rightarrow> dflt)"

subsection \<open>Reading a text file line by line\<close>

text \<open>
  \<^verbatim>\<open>open(path, "r")\<close> reads with universal newlines: \<^verbatim>\<open>\r\n\<close> and a lone
  \<^verbatim>\<open>\r\<close> arrive as \<^verbatim>\<open>\n\<close>. Iterating over the file yields the lines, each with
  its terminating \<^verbatim>\<open>\n\<close>; only the last line may lack one. The text is the file
  as decoded: on bytes that the codec of the locale cannot decode the read raises
  \<^verbatim>\<open>UnicodeDecodeError\<close> before the loop sees a line, and such files are not inputs
  of this model. Nothing below says that extraction returns on them.
\<close>

definition LF :: char where
  "LF = CHR 0x0A"

definition CR :: char where
  "CR = CHR 0x0D"

fun universal_newlines :: "string \<Rightarrow> string" where
  "universal_newlines [] = []"
| "universal_newlines [c] = (if c = CR then [LF] else [c])"
| "universal_newlines (c # d # s) =
     (if c = CR \<and> d = LF then LF # universal_newlines s
      else if c = CR then LF # universal_newlines (d # s)
      else c # universal_newlines (d # s))"

fun split_lines :: "string \<Rightarrow> string list" where
  "split_lines [] = []"
| "split_lines (c # s) =
     (if c = LF then [c] # split_lines s
      else (case split_lines s of [] \<Rightarrow> [[c]] | l # ls \<Rightarrow> (c # l) # ls))"

definition file_lines :: "string \<Rightarrow> string list" where
  "file_lines content = split_lines (universal_newlines content)"

section \<open>Sequence extraction\<close>

definition RES3_TO_1 :: "(string \<times> string) list" where
  "RES3_TO_1 =
     [(''ALA'', ''A''), (''CYS'', ''C''), (''ASP'', ''D''), (''GLU'', ''E''),
      (''PHE'', ''F''), (''GLY'', ''G''), (''HIS'', ''H''), (''ILE'', ''I''),
      (''LYS'', ''K''), (''LEU'', ''L''), (''MET'', ''M''), (''ASN'', ''N''),
      (''PRO'', ''P''), (''GLN'', ''Q''), (''ARG'', ''R''), (''SER'', ''S''),
      (''THR'', ''T''), (''VAL'', ''V''), (''TRP'', ''W''), (''TYR'', ''Y'')]"

text \<open>
  The body of the \<^verbatim>\<open>for line in f\<close> loop of \<^verbatim>\<open>extract_sequence_from_pdb\<close>. The loop
  state is the set \<^verbatim>\<open>residues_seen\<close> and the list \<^verbatim>\<open>sequence\<close>; a \<^verbatim>\<open>continue\<close>
  returns the state as it is. \<^verbatim>\<open>line[17:20]\<close> and \<^verbatim>\<open>line[22:26]\<close> are slices,
  \<^verbatim>\<open>line[21]\<close> is an index and raises on a line of fewer than 22 characters.
\<close>

type_synonym residue_key = "string \<times> string"

definition loop_body ::
  "residue_key set \<times> string list \<Rightarrow> string \<Rightarrow> py_error + residue_key set \<times> string list"
where
  "loop_body st line =
     (case st of (residues_seen, sequence) \<Rightarrow>
        if \<not> startswith line ''ATOM'' then Inr (residues_seen, sequence)
        else
          let res_name = strip (slice line 17 20) in
          (case getitem line 21 of
             Inl e \<Rightarrow> Inl e
           | Inr c \<Rightarrow>
               let chain_id = strip [c];
                   res_seq = strip (slice line 22 26);
                   key = (chain_id, res_seq)
               in if key \<in> residues_seen then Inr (residues_seen, sequence)
                  else
                    let aa = dict_get RES3_TO_1 res_name ''X''
                    in Inr (insert key residues_seen, sequence @ [aa])))"

fun for_lines ::
  "residue_key set \<times> string list \<Rightarrow> string list \<Rightarrow> py_error + residue_key set \<times> string list"
where
  "for_lines st [] = Inr st"
| "for_lines st (line # rest) =
     (case loop_body st line of Inl e \<Rightarrow> Inl e | Inr st' \<Rightarrow> for_lines st' rest)"

text \<open>
  \<^verbatim>\<open>extract_sequence_from_pdb\<close>, as a function of the text of the file at
  \<^verbatim>\<open>pdb_path\<close>; \<^verbatim>\<open>"".join(sequence)\<close> is \<^const>\<open>concat\<close>.
\<close>

definition extract_sequence_from_pdb :: "string \<Rightarrow> py_error + string" where
  "extract_sequence_from_pdb content =
     (case for_lines ({}, []) (file_lines content) of
        Inl e \<Rightarrow> Inl e
      | Inr st \<Rightarrow> Inr (concat (snd st)))"

section \<open>The record store and the uploaded files\<close>

text \<open>
  The two tables, as the lists of their rows in insertion order, and the directory
  \<^verbatim>\<open>uploads\<close> as a map from file name to file content, the content being the text that
  reading the file back yields. A \<^verbatim>\<open>DateTime\<close> is a count of
  microseconds. The column \<^verbatim>\<open>id\<close> of each table is \<open>p_id\<close> and \<open>a_id\<close> here, and
  \<^verbatim>\<open>Protein.created_at\<close> is \<open>p_created_at\<close>.
\<close>

type_synonym datetime = int

record protein =
  p_id :: int
  slug :: string
  filename :: string
  sequence :: string
  p_created_at :: datetime

record annotation =
  a_id :: int
  protein_id :: int
  start_index :: int
  end_index :: int
  label :: string
  color :: string
  created_at :: datetime

record store =
  proteins :: "protein list"
  annotations :: "annotation list"
  uploads :: "string \<rightharpoonup> string"

definition empty_store :: store where
  "empty_store = \<lparr>proteins = [], annotations = [], uploads = Map.empty\<rparr>"

text \<open>An integer primary key that the insert leaves out: one more than the largest in the table.\<close>

definition next_pk :: "int list \<Rightarrow> int" where
  "next_pk ids = (if ids = [] then 1 else Max (set ids) + 1)"

text \<open>\<^verbatim>\<open>db.query(Protein).filter(Protein.slug == slug).first()\<close>\<close>

definition protein_by_slug :: "store \<Rightarrow> string \<Rightarrow> protein option" where
  "protein_by_slug st s = find (\<lambda>p. slug p = s) (proteins st)"

text \<open>What the routes return.\<close>

type_synonym ann_dict = "int \<times> int \<times> int \<times> string \<times> string"

record page =
  page_protein :: protein
  page_annotations :: "ann_dict list"
  pdb_url :: string
  share_url :: string

datatype response =
    RedirectResponse string int
  | TemplateResponse string page
  | JSONResponse "(string \<times> string) list"

section \<open>The routes\<close>

text \<open>
  \<^verbatim>\<open>upload_pdb\<close>. The random \<^verbatim>\<open>uuid.uuid4().hex\<close> and the clock behind the column
  default \<^verbatim>\<open>utcnow\<close> are arguments. The file is written first, then parsed, then the
  row is inserted; the column \<^verbatim>\<open>slug\<close> is declared \<^verbatim>\<open>unique=True\<close>, so the commit
  of a row whose slug is in the table raises \<^verbatim>\<open>IntegrityError\<close> and inserts nothing.
  The file parsed is the one just written, so its text is \<open>content\<close>. An exception leaves
  the store as it is at that point.
\<close>

definition upload_pdb ::
  "store \<Rightarrow> string \<Rightarrow> datetime \<Rightarrow> string \<Rightarrow> string \<Rightarrow> (py_error + response) \<times> store"
where
  "upload_pdb st uuid_hex now file_name content =
     (if \<not> endswith (lower file_name) ''.pdb'' then (Inl InvalidInput, st)
      else
        let new_slug = take 10 uuid_hex;
            save_name = new_slug @ ''.pdb'';
            st1 = st\<lparr>uploads := (uploads st)(save_name \<mapsto> content)\<rparr>
        in case extract_sequence_from_pdb content of
             Inl e \<Rightarrow> (Inl e, st1)
           | Inr extracted \<Rightarrow>
               if new_slug \<in> set (map slug (proteins st1)) then (Inl IntegrityError, st1)
               else
                 let row = \<lparr>p_id = next_pk (map p_id (proteins st1)), slug = new_slug,
                            filename = save_name, sequence = extracted, p_created_at = now\<rparr>
                 in (Inr (RedirectResponse (''/p/'' @ slug row) 303),
                     st1\<lparr>proteins := proteins st1 @ [row]\<rparr>))"

text \<open>
  \<^verbatim>\<open>view_protein\<close>. The query is \<^verbatim>\<open>filter(Annotation.protein_id == protein.id)\<close>
  followed by \<^verbatim>\<open>order_by(Annotation.created_at.asc())\<close>; rows with equal
  \<^verbatim>\<open>created_at\<close> stay in insertion order. The request contributes its scheme and
  its \<^verbatim>\<open>host\<close> header, which may be absent; the page is the template context without
  the request object itself.
\<close>

definition ann_data :: "annotation \<Rightarrow> ann_dict" where
  "ann_data a = (a_id a, start_index a, end_index a, label a, color a)"

definition query_annotations :: "store \<Rightarrow> protein \<Rightarrow> annotation list" where
  "query_annotations st p =
     sort_key created_at (filter (\<lambda>a. protein_id a = p_id p) (annotations st))"

definition view_protein :: "store \<Rightarrow> string \<Rightarrow> string \<Rightarrow> string option \<Rightarrow> py_error + response" where
  "view_protein st s scheme host =
     (case protein_by_slug st s of
        None \<Rightarrow> Inl NotFound
      | Some p \<Rightarrow>
          Inr (TemplateResponse ''protein.html''
                 \<lparr>page_protein = p,
                  page_annotations = map ann_data (query_annotations st p),
                  pdb_url = ''/uploads/'' @ filename p,
                  share_url = scheme @ ''://'' @ (case host of None \<Rightarrow> ''None'' | Some h \<Rightarrow> h)
                                @ ''/p/'' @ s\<rparr>))"

text \<open>
  \<^verbatim>\<open>add_annotation\<close>. Its range test, the \<^verbatim>\<open>if\<close> that raises status 400, is
  \<open>validate_range\<close>, a function of \<^verbatim>\<open>len(protein.sequence)\<close> and the two indices. Both
  \<^verbatim>\<open>raise\<close> statements come before \<^verbatim>\<open>db.add\<close>, so they return the store they were
  given.
\<close>

definition validate_range :: "int \<Rightarrow> int \<Rightarrow> int \<Rightarrow> py_error + unit" where
  "validate_range sequence_length start_ix end_ix =
     (if start_ix < 0 \<or> end_ix \<ge> sequence_length \<or> start_ix > end_ix
      then Inl InvalidRange else Inr ())"

definition add_annotation ::
  "store \<Rightarrow> datetime \<Rightarrow> string \<Rightarrow> int \<Rightarrow> int \<Rightarrow> string \<Rightarrow> string \<Rightarrow> (py_error + response) \<times> store"
where
  "add_annotation st now s start_ix end_ix lbl col =
     (case protein_by_slug st s of
        None \<Rightarrow> (Inl NotFound, st)
      | Some p \<Rightarrow>
          (case validate_range (int (length (sequence p))) start_ix end_ix of
             Inl e \<Rightarrow> (Inl e, st)
           | Inr _ \<Rightarrow>
               let ann = \<lparr>a_id = next_pk (map a_id (annotations st)), protein_id = p_id p,
                          start_index = start_ix, end_index = end_ix, label = lbl, color = col,
                          created_at = now\<rparr>
               in (Inr (JSONResponse [(''status'', ''ok'')]),
                   st\<lparr>annotations := annotations st @ [ann]\<rparr>)))"

text \<open>The stores the application can be in: it starts empty and changes by the two POST routes.\<close>

inductive reachable :: "store \<Rightarrow> bool" where
  reachable_empty: "reachable empty_store"
| reachable_upload:
    "reachable st \<Longrightarrow> reachable (snd (upload_pdb st uuid_hex now file_name content))"
| reachable_annotation:
    "reachable st \<Longrightarrow> reachable (snd (add_annotation st now s start_ix end_ix lbl col))"

section \<open>The specification's vocabulary\<close>

text \<open>
  The three fixed-width fields of a line, read by column: residue name in columns 17..19,
  chain identifier in column 21, residue sequence number in columns 22..25, each
  without surrounding whitespace. A line is an atomic coordinate record when its record
  type is \<^verbatim>\<open>ATOM\<close>. These are total: on a short line a field is empty.
\<close>

definition is_atom_record :: "string \<Rightarrow> bool" where
  "is_atom_record l = startswith l ''ATOM''"

definition res_name_of :: "string \<Rightarrow> string" where
  "res_name_of l = strip (slice l 17 20)"

definition chain_id_of :: "string \<Rightarrow> string" where
  "chain_id_of l = strip (slice l 21 22)"

definition res_seq_of :: "string \<Rightarrow> string" where
  "res_seq_of l = strip (slice l 22 26)"

definition residue_key_of :: "string \<Rightarrow> residue_key" where
  "residue_key_of l = (chain_id_of l, res_seq_of l)"

definition atom_records :: "string \<Rightarrow> string list" where
  "atom_records content = filter is_atom_record (file_lines content)"

text \<open>The one-letter code of a residue name: its table entry, or the placeholder.\<close>

definition one_letter :: "string \<Rightarrow> string" where
  "one_letter name = (if name \<in> set (map fst RES3_TO_1) then the (map_of RES3_TO_1 name) else ''X'')"

text \<open>
  Deduplication per key, ordered by first appearance: the head of the list stays, and
  nothing after it with the head's key does.
\<close>

fun first_per_key :: "('a \<Rightarrow> 'k) \<Rightarrow> 'a list \<Rightarrow> 'a list" where
  "first_per_key key [] = []"
| "first_per_key key (x # xs) = x # filter (\<lambda>y. key y \<noteq> key x) (first_per_key key xs)"

text \<open>
  The sequence the contract describes: one code per distinct (chain, residue number) key
  among the atomic records, in order of first appearance, joined without separator.
\<close>

definition contract_sequence :: "string \<Rightarrow> string" where
  "contract_sequence content =
     concat (map (\<lambda>l. one_letter (res_name_of l)) (first_per_key residue_key_of (atom_records content)))"

text \<open>A truncated atomic record: the record type is there, the chain identifier column is not.\<close>

definition truncated_atom :: "string \<Rightarrow> bool" where
  "truncated_atom l = (is_atom_record l \<and> length l < 22)"

definition has_truncated_atom :: "string \<Rightarrow> bool" where
  "has_truncated_atom content = list_ex truncated_atom (file_lines content)"

text \<open>The 20 one-letter amino-acid codes and the marker for an unknown residue.\<close>

definition amino_alphabet :: "char set" where
  "amino_alphabet = set ''ACDEFGHIKLMNPQRSTVWY'' \<union> {CHR ''X''}"

text \<open>The stored sequences of a store are over the alphabet.\<close>

definition sequences_in_alphabet :: "store \<Rightarrow> bool" where
  "sequences_in_alphabet st = list_all (\<lambda>p. list_all (\<lambda>c. c \<in> amino_alphabet) (sequence p)) (proteins st)"

text \<open>The range rule in the words of the data model: \<open>0 \<le> start \<le> end \<le> len - 1\<close>.\<close>

definition in_bounds :: "int \<Rightarrow> int \<Rightarrow> int \<Rightarrow> bool" where
  "in_bounds sequence_length start_ix end_ix =
     (0 \<le> start_ix \<and> start_ix \<le> end_ix \<and> end_ix \<le> sequence_length - 1)"

text \<open>The file name test in the words of the interface: the name ends with the extension.\<close>

definition has_pdb_extension :: "string \<Rightarrow> bool" where
  "has_pdb_extension file_name = endswith file_name ''.pdb''"

section \<open>Example inputs\<close>

text \<open>Four atomic coordinate records in the fixed-width layout of the format, and two files.\<close>

definition ala_1_N :: string where
  "ala_1_N = ''ATOM      1  N   ALA A   1      11.104   6.134  -6.504  1.00  0.00           N''"

definition ala_1_CA :: string where
  "ala_1_CA = ''ATOM      2  CA  ALA A   1      11.639   6.071  -5.147  1.00  0.00           C''"

definition gly_2_N :: string where
  "gly_2_N = ''ATOM      3  N   GLY A   2      10.492   5.954  -4.218  1.00  0.00           N''"

definition xyz_1_N :: string where
  "xyz_1_N = ''ATOM      1  N   XYZ A   1      11.104   6.134  -6.504  1.00  0.00           N''"

definition example_ala_ala_gly :: string where
  "example_ala_ala_gly = ala_1_N @ [LF] @ ala_1_CA @ [LF] @ gly_2_N @ [LF]"

definition example_xyz :: string where
  "example_xyz = xyz_1_N @ [LF]"

text \<open>A complete record followed by a line that holds the record type and nothing else.\<close>

definition example_ala_then_truncated :: string where
  "example_ala_then_truncated = ala_1_N @ [LF] @ ''ATOM''"

text \<open>A generated \<^verbatim>\<open>uuid4().hex\<close>, and stores that uploads lead to.\<close>

definition example_uuid :: string where
  "example_uuid = ''0123456789abcdef0123456789abcdef''"

definition store_after_upload :: store where
  "store_after_upload = snd (upload_pdb empty_store example_uuid 1 ''first.pdb'' example_ala_ala_gly)"

definition store_with_empty_sequence :: store where
  "store_with_empty_sequence = snd (upload_pdb empty_store example_uuid 1 ''empty.pdb'' [])"

definition store_with_one_annotation :: store where
  "store_with_one_annotation =
     snd (add_annotation store_after_upload 3 ''0123456789'' 0 0 ''early'' ''blue'')"

definition store_with_two_annotations :: store where
  "store_with_two_annotations =
     snd (add_annotation (snd (add_annotation store_after_upload 5 ''0123456789'' 0 1 ''late'' ''red''))
            3 ''0123456789'' 0 0 ''early'' ''blue'')"

section \<open>The extraction loop computes the contract's sequence\<close>

subsection \<open>One line\<close>

text \<open>
  On a line that reaches column 21 the index \<^verbatim>\<open>line[21]\<close> and the slice
  \<^verbatim>\<open>line[21:22]\<close> read the same character, so the loop body works on the fields of the
  specification; on a shorter \<^verbatim>\<open>ATOM\<close> line it raises.
\<close>

lemma slice_index: "21 < length l \<Longrightarrow> slice l 21 22 = [l ! 21]"
  by (simp add: slice_def take_Suc_conv_app_nth Cons_nth_drop_Suc[symmetric])

lemma one_letter_dict_get: "dict_get RES3_TO_1 n ''X'' = one_letter n"
proof (cases "map_of RES3_TO_1 n")
  case None
  then have "n \<notin> set (map fst RES3_TO_1)" by (simp add: map_of_eq_None_iff)
  with None show ?thesis by (simp add: dict_get_def one_letter_def)
next
  case (Some v)
  then have "n \<in> set (map fst RES3_TO_1)" using map_of_eq_None_iff[of RES3_TO_1 n] by simp
  with Some show ?thesis by (simp add: dict_get_def one_letter_def)
qed

lemma loop_body_atom:
  "is_atom_record l \<Longrightarrow> 21 < length l \<Longrightarrow>
   loop_body (seen, acc) l =
     (if residue_key_of l \<in> seen then Inr (seen, acc)
      else Inr (insert (residue_key_of l) seen, acc @ [one_letter (res_name_of l)]))"
  by (simp add: loop_body_def is_atom_record_def getitem_def residue_key_of_def chain_id_of_def
      res_seq_of_def res_name_of_def slice_index one_letter_dict_get Let_def)

lemma loop_body_truncated: "truncated_atom l \<Longrightarrow> loop_body st l = Inl IndexError"
  by (cases st) (simp add: loop_body_def truncated_atom_def is_atom_record_def getitem_def)

lemma loop_body_other: "\<not> is_atom_record l \<Longrightarrow> loop_body st l = Inr st"
  by (cases st) (simp add: loop_body_def is_atom_record_def)

lemma loop_body_returns: "\<not> truncated_atom l \<Longrightarrow> \<exists>st'. loop_body st l = Inr st'"
  by (cases st; cases "is_atom_record l")
     (simp_all add: loop_body_other loop_body_atom truncated_atom_def)

subsection \<open>The loop\<close>

text \<open>
  The loop invariant, stated for any starting state: the keys seen grow by the keys of the
  atomic records, and the codes appended are those of the first record per key whose key
  was not seen before the loop started.
\<close>

lemma for_lines_result:
  "\<not> list_ex truncated_atom ls \<Longrightarrow>
   for_lines (seen, acc) ls =
     Inr (seen \<union> residue_key_of ` set (filter is_atom_record ls),
          acc @ map (\<lambda>l. one_letter (res_name_of l))
                 (filter (\<lambda>l. residue_key_of l \<notin> seen)
                    (first_per_key residue_key_of (filter is_atom_record ls))))"
proof (induction ls arbitrary: seen acc)
  case Nil
  then show ?case by simp
next
  case (Cons l ls)
  show ?case
  proof (cases "is_atom_record l")
    case False
    with Cons show ?thesis by (simp add: loop_body_other)
  next
    case True
    with Cons.prems have len: "21 < length l" by (simp add: truncated_atom_def)
    from Cons.prems have rest: "\<not> list_ex truncated_atom ls" by simp
    show ?thesis
    proof (cases "residue_key_of l \<in> seen")
      case True
      have "filter (\<lambda>y. residue_key_of y \<notin> seen) (filter (\<lambda>y. residue_key_of y \<noteq> residue_key_of l) zs)
          = filter (\<lambda>y. residue_key_of y \<notin> seen) zs" for zs
        using True by (induction zs) auto
      with True \<open>is_atom_record l\<close> len Cons.IH[OF rest] show ?thesis
        by (auto simp: loop_body_atom)
    next
      case False
      have "filter (\<lambda>y. residue_key_of y \<notin> insert (residue_key_of l) seen) zs
          = filter (\<lambda>y. residue_key_of y \<notin> seen) (filter (\<lambda>y. residue_key_of y \<noteq> residue_key_of l) zs)" for zs
        by (induction zs) auto
      with False \<open>is_atom_record l\<close> len Cons.IH[OF rest] show ?thesis
        by (auto simp: loop_body_atom)
    qed
  qed
qed

lemma for_lines_raises:
  "list_ex truncated_atom ls \<Longrightarrow> for_lines st ls = Inl IndexError"
proof (induction ls arbitrary: st)
  case Nil
  then show ?case by simp
next
  case (Cons l ls)
  show ?case
  proof (cases "truncated_atom l")
    case True
    then show ?thesis by (simp add: loop_body_truncated)
  next
    case False
    with Cons.prems have rest: "list_ex truncated_atom ls" by simp
    show ?thesis
    proof (cases "loop_body st l")
      case (Inl e)
      with loop_body_returns[OF False, of st] show ?thesis by simp
    next
      case (Inr st')
      with Cons.IH[OF rest] show ?thesis by simp
    qed
  qed
qed


lemma extract_sequence_from_pdb_eq:
  "extract_sequence_from_pdb content =
     (if has_truncated_atom content then Inl IndexError else Inr (contract_sequence content))"
proof (cases "has_truncated_atom content")
  case True
  then show ?thesis
    by (simp add: extract_sequence_from_pdb_def has_truncated_atom_def for_lines_raises)
next
  case False
  then have "\<not> list_ex truncated_atom (file_lines content)"
    by (simp add: has_truncated_atom_def)
  from for_lines_result[OF this, of "{}" "[]"] False show ?thesis
    by (simp add: extract_sequence_from_pdb_def contract_sequence_def atom_records_def)
qed

subsection \<open>First appearance per key\<close>

text \<open>
  \<^const>\<open>first_per_key\<close> keeps every key once, keeps only elements of the list, and, read
  from the front of the stream, appends an element exactly when its key has not occurred.
\<close>

lemma image_without_key: "key ` {y \<in> S. key y \<noteq> k} = key ` S - {k}"
  by auto

lemma first_per_key_keys: "key ` set (first_per_key key xs) = key ` set xs"
proof (induction xs)
  case Nil
  then show ?case by simp
next
  case (Cons x xs)
  have "key ` set (first_per_key key (x # xs))
      = insert (key x) (key ` {y \<in> set (first_per_key key xs). key y \<noteq> key x})"
    by simp
  also have "\<dots> = insert (key x) (key ` set (first_per_key key xs) - {key x})"
    by (simp only: image_without_key)
  also have "\<dots> = insert (key x) (key ` set xs)"
    by (simp add: Cons.IH)
  finally show ?case by simp
qed

lemma first_per_key_distinct: "distinct (map key (first_per_key key xs))"
  by (induction xs) (auto simp: distinct_map_filter)

lemma length_first_per_key: "length (first_per_key key xs) = card (key ` set xs)"
proof -
  have "card (key ` set xs) = card (set (map key (first_per_key key xs)))"
    by (simp add: first_per_key_keys)
  also have "\<dots> = length (map key (first_per_key key xs))"
    by (rule distinct_card) (rule first_per_key_distinct)
  finally show ?thesis by simp
qed

lemma first_per_key_snoc:
  "first_per_key key (xs @ [x]) =
     (if key x \<in> key ` set xs then first_per_key key xs else first_per_key key xs @ [x])"
  by (induction xs) auto

lemma first_per_key_subset: "set (first_per_key key xs) \<subseteq> set xs"
  by (induction xs) auto

subsection \<open>The codes\<close>

lemma RES3_TO_1_codes: "(n, v) \<in> set RES3_TO_1 \<Longrightarrow> length v = 1 \<and> set v \<subseteq> amino_alphabet"
  by (auto simp: RES3_TO_1_def amino_alphabet_def)

lemma one_letter_code: "length (one_letter n) = 1 \<and> set (one_letter n) \<subseteq> amino_alphabet"
proof (cases "map_of RES3_TO_1 n")
  case None
  then have "n \<notin> set (map fst RES3_TO_1)" by (simp add: map_of_eq_None_iff)
  then show ?thesis by (simp add: one_letter_def amino_alphabet_def)
next
  case (Some v)
  then have "n \<in> set (map fst RES3_TO_1)" using map_of_eq_None_iff[of RES3_TO_1 n] by simp
  moreover from Some have "(n, v) \<in> set RES3_TO_1" by (rule map_of_SomeD)
  ultimately show ?thesis using Some RES3_TO_1_codes[of n v] by (simp add: one_letter_def)
qed

lemma length_concat_codes: "length (concat (map (\<lambda>l. one_letter (f l)) xs)) = length xs"
  by (induction xs) (simp_all add: one_letter_code)

lemma set_concat_codes: "set (concat (map (\<lambda>l. one_letter (f l)) xs)) \<subseteq> amino_alphabet"
  using one_letter_code by auto

lemma length_contract_sequence:
  "length (contract_sequence content) = card (residue_key_of ` set (atom_records content))"
  by (simp add: contract_sequence_def length_concat_codes length_first_per_key)

lemma contract_sequence_alphabet: "set (contract_sequence content) \<subseteq> amino_alphabet"
  unfolding contract_sequence_def by (rule set_concat_codes)

lemma strip_Nil: "strip [] = []"
  by (simp add: strip_def)

lemma chain_id_long: "chain_id_of l \<noteq> [] \<Longrightarrow> 21 < length l"
  by (cases "21 < length l") (simp_all add: chain_id_of_def slice_def strip_Nil)

lemma has_truncated_atom_lines:
  "has_truncated_atom content \<longleftrightarrow> (\<exists>l \<in> set (file_lines content). is_atom_record l \<and> length l < 22)"
  by (simp add: has_truncated_atom_def list_ex_iff truncated_atom_def)

subsection \<open>Whole files\<close>

text \<open>
  On decoded text, extraction either meets a truncated record and raises, or returns the
  contract's sequence; the two scenarios of the specification are files of the second
  kind. A returned string has one character per distinct key, and a residue name outside
  the table contributes the placeholder.
\<close>

lemma extract_returns_iff:
  "(\<exists>s. extract_sequence_from_pdb content = Inr s) \<longleftrightarrow> \<not> has_truncated_atom content"
  by (simp add: extract_sequence_from_pdb_eq)

lemma extract_raises_only_IndexError:
  "extract_sequence_from_pdb content = Inl e \<Longrightarrow> e = IndexError"
  by (simp add: extract_sequence_from_pdb_eq split: if_splits)

lemma extract_without_atoms:
  "atom_records content = [] \<Longrightarrow> extract_sequence_from_pdb content = Inr []"
proof -
  assume a: "atom_records content = []"
  then have "\<not> has_truncated_atom content"
    by (auto simp: has_truncated_atom_lines atom_records_def filter_empty_conv)
  with a show ?thesis
    by (simp add: extract_sequence_from_pdb_eq contract_sequence_def)
qed

lemma extracted_length:
  "extract_sequence_from_pdb content = Inr s \<Longrightarrow>
   length s = card (residue_key_of ` set (atom_records content))"
  by (auto simp: extract_sequence_from_pdb_eq length_contract_sequence split: if_splits)

lemma keyed_record_not_truncated:
  "is_atom_record l \<Longrightarrow> residue_key_of l = (c # cs, r) \<Longrightarrow> \<not> truncated_atom l"
  using chain_id_long[of l] by (simp add: truncated_atom_def residue_key_of_def)

lemma one_letter_examples:
  "one_letter ''ALA'' = ''A''" "one_letter ''GLY'' = ''G''" "one_letter ''XYZ'' = ''X''"
  by (simp_all add: one_letter_def RES3_TO_1_def)

lemma unmapped_residue_placeholder:
  "name \<notin> set (map fst RES3_TO_1) \<Longrightarrow> dict_get RES3_TO_1 name ''X'' = ''X''"
  by (simp add: one_letter_dict_get one_letter_def)

lemma RES3_TO_1_entries: "length RES3_TO_1 = 20 \<and> distinct (map fst RES3_TO_1)"
  by (simp add: RES3_TO_1_def)

lemma extract_ala_ala_gly:
  assumes "file_lines content = [l1, l2, l3]"
    and "is_atom_record l1" "is_atom_record l2" "is_atom_record l3"
    and "res_name_of l1 = ''ALA''" "residue_key_of l1 = (''A'', ''1'')"
    and "res_name_of l2 = ''ALA''" "residue_key_of l2 = (''A'', ''1'')"
    and "res_name_of l3 = ''GLY''" "residue_key_of l3 = (''A'', ''2'')"
  shows "extract_sequence_from_pdb content = Inr ''AG''"
proof -
  from assms have "\<not> has_truncated_atom content"
    by (simp add: has_truncated_atom_def keyed_record_not_truncated)
  moreover from assms have "contract_sequence content = ''AG''"
    by (simp add: contract_sequence_def atom_records_def one_letter_examples)
  ultimately show ?thesis by (simp add: extract_sequence_from_pdb_eq)
qed

lemma extract_unmapped:
  assumes "file_lines content = [l]" and "is_atom_record l"
    and "res_name_of l = ''XYZ''" "residue_key_of l = (''A'', ''1'')"
  shows "extract_sequence_from_pdb content = Inr ''X''"
proof -
  from assms have "\<not> has_truncated_atom content"
    by (simp add: has_truncated_atom_def keyed_record_not_truncated)
  moreover from assms have "contract_sequence content = ''X''"
    by (simp add: contract_sequence_def atom_records_def one_letter_examples)
  ultimately show ?thesis by (simp add: extract_sequence_from_pdb_eq)
qed

section \<open>Lower case and the file extension\<close>

text \<open>
  Which characters \<^const>\<open>lower_char\<close> sends to the four characters of the extension, by
  their code points, and with that which file names pass the test of the upload route.
\<close>

lemma of_char_less_256: "(of_char c :: nat) < 256"
proof -
  have "(of_char c :: nat) mod 256 = of_char c" by (rule of_char_mod_256)
  moreover have "(of_char c :: nat) mod 256 < 256" by simp
  ultimately show ?thesis by simp
qed

lemma of_char_lower_char:
  "(of_char (lower_char c) :: nat) =
     (if (65 \<le> (of_char c :: nat) \<and> (of_char c :: nat) \<le> 90)
         \<or> (192 \<le> (of_char c :: nat) \<and> (of_char c :: nat) \<le> 222 \<and> (of_char c :: nat) \<noteq> 215)
      then of_char c + 32 else of_char c)"
  by (simp add: lower_char_def Let_def)

lemma lower_char_eq_iff:
  "lower_char c = d \<longleftrightarrow> (of_char (lower_char c) :: nat) = of_char d"
  by simp

lemma lower_char_dot: "lower_char c = CHR ''.'' \<longleftrightarrow> c = CHR ''.''"
proof -
  have "c = CHR ''.'' \<longleftrightarrow> (of_char c :: nat) = 46"
    using of_char_eq_iff[of c "CHR ''.''", where ?'a = nat] by simp
  moreover have "lower_char c = CHR ''.'' \<longleftrightarrow> (of_char (lower_char c) :: nat) = 46"
    using lower_char_eq_iff[of c "CHR ''.''"] by simp
  ultimately show ?thesis
    using of_char_less_256[of c] by (auto simp: of_char_lower_char)
qed

lemma lower_char_p: "lower_char c = CHR ''p'' \<longleftrightarrow> c = CHR ''p'' \<or> c = CHR ''P''"
proof -
  have "c = CHR ''p'' \<longleftrightarrow> (of_char c :: nat) = 112"
    using of_char_eq_iff[of c "CHR ''p''", where ?'a = nat] by simp
  moreover have "c = CHR ''P'' \<longleftrightarrow> (of_char c :: nat) = 80"
    using of_char_eq_iff[of c "CHR ''P''", where ?'a = nat] by simp
  moreover have "lower_char c = CHR ''p'' \<longleftrightarrow> (of_char (lower_char c) :: nat) = 112"
    using lower_char_eq_iff[of c "CHR ''p''"] by simp
  ultimately show ?thesis
    using of_char_less_256[of c] by (auto simp: of_char_lower_char)
qed

lemma lower_char_d: "lower_char c = CHR ''d'' \<longleftrightarrow> c = CHR ''d'' \<or> c = CHR ''D''"
proof -
  have "c = CHR ''d'' \<longleftrightarrow> (of_char c :: nat) = 100"
    using of_char_eq_iff[of c "CHR ''d''", where ?'a = nat] by simp
  moreover have "c = CHR ''D'' \<longleftrightarrow> (of_char c :: nat) = 68"
    using of_char_eq_iff[of c "CHR ''D''", where ?'a = nat] by simp
  moreover have "lower_char c = CHR ''d'' \<longleftrightarrow> (of_char (lower_char c) :: nat) = 100"
    using lower_char_eq_iff[of c "CHR ''d''"] by simp
  ultimately show ?thesis
    using of_char_less_256[of c] by (auto simp: of_char_lower_char)
qed

lemma lower_char_b: "lower_char c = CHR ''b'' \<longleftrightarrow> c = CHR ''b'' \<or> c = CHR ''B''"
proof -
  have "c = CHR ''b'' \<longleftrightarrow> (of_char c :: nat) = 98"
    using of_char_eq_iff[of c "CHR ''b''", where ?'a = nat] by simp
  moreover have "c = CHR ''B'' \<longleftrightarrow> (of_char c :: nat) = 66"
    using of_char_eq_iff[of c "CHR ''B''", where ?'a = nat] by simp
  moreover have "lower_char c = CHR ''b'' \<longleftrightarrow> (of_char (lower_char c) :: nat) = 98"
    using lower_char_eq_iff[of c "CHR ''b''"] by simp
  ultimately show ?thesis
    using of_char_less_256[of c] by (auto simp: of_char_lower_char)
qed

lemma endswith_iff: "endswith s p \<longleftrightarrow> (\<exists>stem. s = stem @ p)"
proof
  assume "endswith s p"
  then have d: "drop (length s - length p) s = p" by (simp add: endswith_def)
  have "s = take (length s - length p) s @ drop (length s - length p) s" by simp
  with d have "s = take (length s - length p) s @ p" by simp
  then show "\<exists>stem. s = stem @ p" ..
next
  assume "\<exists>stem. s = stem @ p"
  then show "endswith s p" by (auto simp: endswith_def)
qed

lemma endswith_lower_pdb:
  "endswith (lower file_name) ''.pdb'' \<longleftrightarrow>
     (\<exists>stem p d b. file_name = stem @ [CHR ''.'', p, d, b]
        \<and> (p = CHR ''p'' \<or> p = CHR ''P'') \<and> (d = CHR ''d'' \<or> d = CHR ''D'')
        \<and> (b = CHR ''b'' \<or> b = CHR ''B''))"
proof
  assume "endswith (lower file_name) ''.pdb''"
  then obtain stem where "map lower_char file_name = stem @ ''.pdb''"
    by (auto simp: endswith_iff lower_def)
  then obtain xs ys where f: "file_name = xs @ ys" and ys: "map lower_char ys = ''.pdb''"
    by (auto simp: map_eq_append_conv)
  from ys obtain w p d b where "ys = [w, p, d, b]" "lower_char w = CHR ''.''"
      "lower_char p = CHR ''p''" "lower_char d = CHR ''d''" "lower_char b = CHR ''b''"
    by (auto simp: map_eq_Cons_conv)
  with f show "\<exists>stem p d b. file_name = stem @ [CHR ''.'', p, d, b]
        \<and> (p = CHR ''p'' \<or> p = CHR ''P'') \<and> (d = CHR ''d'' \<or> d = CHR ''D'')
        \<and> (b = CHR ''b'' \<or> b = CHR ''B'')"
    by (simp add: lower_char_dot lower_char_p lower_char_d lower_char_b)
next
  assume "\<exists>stem p d b. file_name = stem @ [CHR ''.'', p, d, b]
        \<and> (p = CHR ''p'' \<or> p = CHR ''P'') \<and> (d = CHR ''d'' \<or> d = CHR ''D'')
        \<and> (b = CHR ''b'' \<or> b = CHR ''B'')"
  then obtain stem p d b where f: "file_name = stem @ [CHR ''.'', p, d, b]"
    and l: "lower_char p = CHR ''p''" "lower_char d = CHR ''d''" "lower_char b = CHR ''b''"
    by (auto simp: lower_char_p lower_char_d lower_char_b)
  have "lower_char CHR ''.'' = CHR ''.''" by (simp add: lower_char_dot)
  with f l have "lower file_name = map lower_char stem @ ''.pdb''"
    by (simp add: lower_def)
  then show "endswith (lower file_name) ''.pdb''"
    unfolding endswith_iff by blast
qed

lemma has_pdb_extension_accepted:
  "has_pdb_extension file_name \<Longrightarrow> endswith (lower file_name) ''.pdb''"
  unfolding has_pdb_extension_def endswith_iff[of file_name] endswith_lower_pdb by auto

section \<open>The routes, case by case\<close>

subsection \<open>Range validation\<close>

lemma validate_range_in_bounds:
  "validate_range n a b = (if in_bounds n a b then Inr () else Inl InvalidRange)"
  by (auto simp: validate_range_def in_bounds_def)

lemma protein_by_slug_None: "protein_by_slug st s = None \<longleftrightarrow> s \<notin> set (map slug (proteins st))"
  by (auto simp: protein_by_slug_def find_None_iff)

lemma protein_by_slug_Some:
  "protein_by_slug st s = Some p \<Longrightarrow> p \<in> set (proteins st) \<and> slug p = s"
  by (auto simp: protein_by_slug_def find_Some_iff)

lemma add_annotation_unknown:
  "s \<notin> set (map slug (proteins st)) \<Longrightarrow> add_annotation st now s a b l c = (Inl NotFound, st)"
  using protein_by_slug_None[of st s] by (simp add: add_annotation_def)

lemma add_annotation_invalid:
  "protein_by_slug st s = Some p \<Longrightarrow> \<not> in_bounds (int (length (sequence p))) a b \<Longrightarrow>
   add_annotation st now s a b l c = (Inl InvalidRange, st)"
  by (simp add: add_annotation_def validate_range_in_bounds)

lemma add_annotation_valid:
  "protein_by_slug st s = Some p \<Longrightarrow> in_bounds (int (length (sequence p))) a b \<Longrightarrow>
   add_annotation st now s a b l c =
     (Inr (JSONResponse [(''status'', ''ok'')]),
      st\<lparr>annotations := annotations st @
           [\<lparr>a_id = next_pk (map a_id (annotations st)), protein_id = p_id p,
             start_index = a, end_index = b, label = l, color = c, created_at = now\<rparr>]\<rparr>)"
  by (simp add: add_annotation_def validate_range_in_bounds)

lemma add_annotation_proteins: "proteins (snd (add_annotation st now s a b l c)) = proteins st"
  by (simp add: add_annotation_def Let_def split: option.splits sum.splits)

lemma add_annotation_uploads: "uploads (snd (add_annotation st now s a b l c)) = uploads st"
  by (simp add: add_annotation_def Let_def split: option.splits sum.splits)

subsection \<open>Upload\<close>

lemma upload_pdb_rejected:
  "\<not> endswith (lower f) ''.pdb'' \<Longrightarrow> upload_pdb st u now f c = (Inl InvalidInput, st)"
  by (simp add: upload_pdb_def)

lemma upload_pdb_accepted:
  "endswith (lower f) ''.pdb'' \<Longrightarrow> fst (upload_pdb st u now f c) \<noteq> Inl InvalidInput"
  by (auto simp: upload_pdb_def Let_def InvalidInput_def extract_sequence_from_pdb_eq)

lemma upload_pdb_proteins:
  "proteins (snd (upload_pdb st u now f c)) = proteins st
   \<or> (\<exists>row. proteins (snd (upload_pdb st u now f c)) = proteins st @ [row]
         \<and> extract_sequence_from_pdb c = Inr (sequence row))"
  by (auto simp: upload_pdb_def Let_def split: sum.splits)

lemma upload_pdb_collision:
  assumes "endswith (lower f) ''.pdb''" and "take 10 u \<in> set (map slug (proteins st))"
    and "extract_sequence_from_pdb c = Inr q"
  shows "upload_pdb st u now f c =
           (Inl IntegrityError, st\<lparr>uploads := (uploads st)(take 10 u @ ''.pdb'' \<mapsto> c)\<rparr>)"
  using assms by (simp add: upload_pdb_def Let_def)

subsection \<open>The alphabet invariant\<close>

lemma extracted_alphabet: "extract_sequence_from_pdb c = Inr q \<Longrightarrow> set q \<subseteq> amino_alphabet"
  using contract_sequence_alphabet[of c]
  by (simp add: extract_sequence_from_pdb_eq split: if_splits)

lemma sequences_in_alphabet_iff:
  "sequences_in_alphabet st \<longleftrightarrow> (\<forall>p \<in> set (proteins st). set (sequence p) \<subseteq> amino_alphabet)"
  by (auto simp: sequences_in_alphabet_def list_all_iff)

lemma upload_pdb_alphabet:
  assumes "sequences_in_alphabet st"
  shows "sequences_in_alphabet (snd (upload_pdb st u now f c))"
proof -
  from upload_pdb_proteins[of st u now f c] show ?thesis
  proof
    assume "proteins (snd (upload_pdb st u now f c)) = proteins st"
    with assms show ?thesis by (simp add: sequences_in_alphabet_iff)
  next
    assume "\<exists>row. proteins (snd (upload_pdb st u now f c)) = proteins st @ [row]
         \<and> extract_sequence_from_pdb c = Inr (sequence row)"
    then obtain row where r: "proteins (snd (upload_pdb st u now f c)) = proteins st @ [row]"
      and e: "extract_sequence_from_pdb c = Inr (sequence row)" by blast
    from e have "set (sequence row) \<subseteq> amino_alphabet" by (rule extracted_alphabet)
    with assms r show ?thesis by (auto simp: sequences_in_alphabet_iff)
  qed
qed

lemma add_annotation_alphabet:
  "sequences_in_alphabet st \<Longrightarrow> sequences_in_alphabet (snd (add_annotation st now s a b l c))"
  by (simp add: sequences_in_alphabet_iff add_annotation_proteins)

lemma reachable_alphabet: "reachable st \<Longrightarrow> sequences_in_alphabet st"
proof (induction rule: reachable.induct)
  case reachable_empty
  show ?case by (simp add: sequences_in_alphabet_def empty_store_def)
next
  case (reachable_upload st uuid_hex now file_name content)
  then show ?case by (simp add: upload_pdb_alphabet)
next
  case (reachable_annotation st now s start_ix end_ix lbl col)
  then show ?case by (simp add: add_annotation_alphabet)
qed

subsection \<open>Ordering of the viewed annotations\<close>

text \<open>Sorting a list that ends with a largest element leaves that element last.\<close>

lemma insort_key_snoc:
  "f x \<le> f a \<Longrightarrow> insort_key f x (ys @ [a]) = insort_key f x ys @ [a]"
  by (induction ys) auto

lemma foldr_insort_key_snoc:
  "\<forall>y \<in> set xs. f y \<le> f a \<Longrightarrow>
   foldr (insort_key f) xs (zs @ [a]) = foldr (insort_key f) xs zs @ [a]"
  by (induction xs) (simp_all add: insort_key_snoc)

lemma sort_key_snoc:
  "\<forall>y \<in> set xs. f y \<le> f a \<Longrightarrow> sort_key f (xs @ [a]) = sort_key f xs @ [a]"
  using foldr_insort_key_snoc[of xs f a "[]"] by (simp add: sort_key_def)

lemma query_annotations_sorted: "sorted (map created_at (query_annotations st p))"
  by (simp add: query_annotations_def)

lemma query_annotations_mset:
  "mset (query_annotations st p) = mset (filter (\<lambda>a. protein_id a = p_id p) (annotations st))"
  by (simp add: query_annotations_def)

lemma query_annotations_snoc:
  assumes "protein_id new = p_id p" and "\<forall>a \<in> set (annotations st). created_at a \<le> created_at new"
  shows "query_annotations (st\<lparr>annotations := annotations st @ [new]\<rparr>) p
         = query_annotations st p @ [new]"
  using assms by (simp add: query_annotations_def sort_key_snoc)

subsection \<open>The example store\<close>

lemma store_after_upload_protein:
  "protein_by_slug store_after_upload ''0123456789'' =
     Some \<lparr>p_id = 1, slug = ''0123456789'', filename = ''0123456789.pdb'', sequence = ''AG'',
           p_created_at = 1\<rparr>"
  by code_simp

section \<open>Claims about sequence extraction\<close>

text \<open>
  C2. Extraction is claimed to emit, for every input stream, one one-letter code per
  distinct (chain identifier, residue sequence number) key among the atomic coordinate
  record lines, in order of first appearance. It does not on a file with a truncated
  record: here a complete ALA record of chain A, residue 1, is followed by the line
  \<^verbatim>\<open>ATOM\<close>. The file has two atomic record lines with two distinct keys, the contract's
  sequence is \<^verbatim>\<open>AX\<close>, and the first line alone is extracted as \<^verbatim>\<open>A\<close>; on the whole
  file \<^verbatim>\<open>line[21]\<close> raises \<^verbatim>\<open>IndexError\<close> at the second line and nothing is emitted.
\<close>

theorem truncated_record_stops_emission:
  "extract_sequence_from_pdb example_ala_then_truncated = Inl IndexError
   \<and> atom_records example_ala_then_truncated = [ala_1_N @ [LF], ''ATOM'']
   \<and> map residue_key_of (atom_records example_ala_then_truncated) = [(''A'', ''1''), ([], [])]
   \<and> contract_sequence example_ala_then_truncated = ''AX''
   \<and> extract_sequence_from_pdb (ala_1_N @ [LF]) = Inr ''A''"
  by code_simp

text \<open>
  C4. The length of the extracted string is claimed to be, for every input stream, the
  number of distinct (chain identifier, residue sequence number) pairs among its atomic
  coordinate record lines. The file of a complete ALA record followed by the line
  \<^verbatim>\<open>ATOM\<close> has two such pairs and no extracted string: extraction raises
  \<^verbatim>\<open>IndexError\<close>.
\<close>

theorem truncated_record_leaves_no_length:
  "card (residue_key_of ` set (atom_records example_ala_then_truncated)) = 2
   \<and> extract_sequence_from_pdb example_ala_then_truncated \<noteq> Inr ''AX''
   \<and> extract_sequence_from_pdb example_ala_then_truncated = Inl IndexError"
  by code_simp

text \<open>
  C3. Extraction is claimed to return normally on every file. It does not: a line that
  starts with \<^verbatim>\<open>ATOM\<close> and has fewer than 22 characters makes \<^verbatim>\<open>line[21]\<close> raise
  \<^verbatim>\<open>IndexError\<close>, here on the file \<^verbatim>\<open>ATOM\<close> and on a record cut after the residue name.
\<close>

theorem truncated_atom_record_raises:
  "extract_sequence_from_pdb ''ATOM'' = Inl IndexError
   \<and> extract_sequence_from_pdb (''ATOM      1  N   ALA'' @ [LF]) = Inl IndexError"
  by code_simp

text \<open>
  C6. Every character of a string that extraction returns is one of the 20 one-letter
  amino-acid codes or the unknown marker \<^verbatim>\<open>X\<close>. So is every character of every
  stored sequence, in every store the application can reach; both POST routes keep it so.
\<close>

theorem stored_sequences_over_alphabet:
  "(extract_sequence_from_pdb content = Inr q \<longrightarrow> set q \<subseteq> amino_alphabet)
   \<and> (reachable st \<longrightarrow> (\<forall>p \<in> set (proteins st). set (sequence p) \<subseteq> amino_alphabet))
   \<and> (sequences_in_alphabet st \<longrightarrow>
        sequences_in_alphabet (snd (upload_pdb st u now f content))
        \<and> sequences_in_alphabet (snd (add_annotation st now s a b l c)))"
proof (intro conjI impI)
  assume "extract_sequence_from_pdb content = Inr q"
  then show "set q \<subseteq> amino_alphabet" by (rule extracted_alphabet)
next
  assume "reachable st"
  then have "sequences_in_alphabet st" by (rule reachable_alphabet)
  then show "\<forall>p \<in> set (proteins st). set (sequence p) \<subseteq> amino_alphabet"
    by (simp only: sequences_in_alphabet_iff)
next
  assume "sequences_in_alphabet st"
  then show "sequences_in_alphabet (snd (upload_pdb st u now f content))"
    by (rule upload_pdb_alphabet)
next
  assume "sequences_in_alphabet st"
  then show "sequences_in_alphabet (snd (add_annotation st now s a b l c))"
    by (rule add_annotation_alphabet)
qed

theorem stored_sequences_over_alphabet_witness:
  "extract_sequence_from_pdb example_ala_ala_gly = Inr ''AG''
   \<and> reachable store_after_upload
   \<and> map sequence (proteins store_after_upload) = [''AG'']
   \<and> set ''AG'' \<subseteq> amino_alphabet
   \<and> sequences_in_alphabet empty_store
   \<and> sequences_in_alphabet store_after_upload"
proof -
  have e: "extract_sequence_from_pdb example_ala_ala_gly = Inr ''AG''" by code_simp
  have r: "reachable store_after_upload"
    unfolding store_after_upload_def by (intro reachable_upload reachable_empty)
  have m: "map sequence (proteins store_after_upload) = [''AG'']" by code_simp
  have i: "sequences_in_alphabet empty_store" by code_simp
  from stored_sequences_over_alphabet [of example_ala_ala_gly "''AG''" store_after_upload] e
  have q: "set ''AG'' \<subseteq> amino_alphabet" by blast
  from stored_sequences_over_alphabet
         [of example_ala_ala_gly "''AG''" empty_store example_uuid 1 "''first.pdb''"] i
  have "sequences_in_alphabet store_after_upload" by (simp add: store_after_upload_def)
  with e r m q i show ?thesis by simp
qed

section \<open>Claims about annotations\<close>

text \<open>
  C1. Range validation succeeds exactly for the integer pairs with
  \<open>0 \<le> start_index \<le> end_index < sequence_length\<close>, fails with InvalidRange exactly when
  \<open>start_index < 0\<close> or \<open>end_index \<ge> sequence_length\<close> or \<open>start_index > end_index\<close>,
  and one of the two always happens, whatever the sequence length.
\<close>

theorem validate_range_exact:
  "(validate_range (int n) a b = Inr () \<longleftrightarrow> 0 \<le> a \<and> a \<le> b \<and> b < int n)
   \<and> (validate_range (int n) a b = Inl InvalidRange \<longleftrightarrow> a < 0 \<or> b \<ge> int n \<or> a > b)
   \<and> (validate_range (int n) a b = Inr () \<or> validate_range (int n) a b = Inl InvalidRange)"
  by (auto simp: validate_range_def)

theorem validate_range_exact_witness:
  "validate_range (int 10) 0 9 = Inr () \<and> validate_range (int 10) 5 2 = Inl InvalidRange"
  using validate_range_exact [of 10 0 9] validate_range_exact [of 10 5 2] by simp

text \<open>
  C5. Annotation creation fails with NotFound on an unknown slug and with InvalidRange on
  a range that is out of bounds for the stored sequence, and leaves the store untouched in
  both cases. On a valid range it appends exactly one Annotation row, which carries the
  given fields and the id of the protein found, and changes nothing else.
\<close>

theorem add_annotation_persists_after_validation:
  "(s \<notin> set (map slug (proteins st)) \<longrightarrow>
      add_annotation st now s a b l c = (Inl NotFound, st))
   \<and> (s \<in> set (map slug (proteins st)) \<longrightarrow> (\<exists>p. protein_by_slug st s = Some p))
   \<and> (protein_by_slug st s = Some p \<and> \<not> in_bounds (int (length (sequence p))) a b \<longrightarrow>
        add_annotation st now s a b l c = (Inl InvalidRange, st))
   \<and> (protein_by_slug st s = Some p \<and> in_bounds (int (length (sequence p))) a b \<longrightarrow>
        add_annotation st now s a b l c =
          (Inr (JSONResponse [(''status'', ''ok'')]),
           st\<lparr>annotations := annotations st @
                [\<lparr>a_id = next_pk (map a_id (annotations st)), protein_id = p_id p,
                  start_index = a, end_index = b, label = l, color = c, created_at = now\<rparr>]\<rparr>))"
proof (intro conjI impI)
  assume "s \<notin> set (map slug (proteins st))"
  then show "add_annotation st now s a b l c = (Inl NotFound, st)"
    by (rule add_annotation_unknown)
next
  assume "s \<in> set (map slug (proteins st))"
  then have "protein_by_slug st s \<noteq> None" by (simp only: protein_by_slug_None) simp
  then show "\<exists>p. protein_by_slug st s = Some p" by blast
next
  assume "protein_by_slug st s = Some p \<and> \<not> in_bounds (int (length (sequence p))) a b"
  then show "add_annotation st now s a b l c = (Inl InvalidRange, st)"
    by (simp add: add_annotation_invalid)
next
  assume "protein_by_slug st s = Some p \<and> in_bounds (int (length (sequence p))) a b"
  then show "add_annotation st now s a b l c =
          (Inr (JSONResponse [(''status'', ''ok'')]),
           st\<lparr>annotations := annotations st @
                [\<lparr>a_id = next_pk (map a_id (annotations st)), protein_id = p_id p,
                  start_index = a, end_index = b, label = l, color = c, created_at = now\<rparr>]\<rparr>)"
    by (simp add: add_annotation_valid)
qed

theorem add_annotation_persists_after_validation_witness:
  "add_annotation store_after_upload 2 ''0123456789'' 0 1 ''helix'' ''red'' =
     (Inr (JSONResponse [(''status'', ''ok'')]),
      store_after_upload\<lparr>annotations :=
        [\<lparr>a_id = 1, protein_id = 1, start_index = 0, end_index = 1, label = ''helix'',
          color = ''red'', created_at = 2\<rparr>]\<rparr>)
   \<and> add_annotation store_after_upload 2 ''0123456789'' 1 2 ''helix'' ''red'' =
       (Inl InvalidRange, store_after_upload)
   \<and> add_annotation store_after_upload 2 ''ffffffffff'' 0 1 ''helix'' ''red'' =
       (Inl NotFound, store_after_upload)"
proof -
  let ?p = "\<lparr>p_id = 1, slug = ''0123456789'', filename = ''0123456789.pdb'', sequence = ''AG'',
           p_created_at = 1\<rparr>"
  have ok: "in_bounds (int (length (sequence ?p))) 0 1" by (simp add: in_bounds_def)
  have bad: "\<not> in_bounds (int (length (sequence ?p))) 1 2" by (simp add: in_bounds_def)
  have unknown: "''ffffffffff'' \<notin> set (map slug (proteins store_after_upload))" by code_simp
  have none: "annotations store_after_upload = []" by code_simp
  from add_annotation_persists_after_validation
         [of "''0123456789''" store_after_upload 2 0 1 "''helix''" "''red''" ?p]
       store_after_upload_protein ok none
  have 1: "add_annotation store_after_upload 2 ''0123456789'' 0 1 ''helix'' ''red'' =
     (Inr (JSONResponse [(''status'', ''ok'')]),
      store_after_upload\<lparr>annotations :=
        [\<lparr>a_id = 1, protein_id = 1, start_index = 0, end_index = 1, label = ''helix'',
          color = ''red'', created_at = 2\<rparr>]\<rparr>)"
    by (simp add: next_pk_def)
  from add_annotation_persists_after_validation
         [of "''0123456789''" store_after_upload 2 1 2 "''helix''" "''red''" ?p]
       store_after_upload_protein bad
  have 2: "add_annotation store_after_upload 2 ''0123456789'' 1 2 ''helix'' ''red'' =
       (Inl InvalidRange, store_after_upload)"
    by simp
  from add_annotation_persists_after_validation
         [of "''ffffffffff''" store_after_upload 2 0 1 "''helix''" "''red''"]
       unknown
  have 3: "add_annotation store_after_upload 2 ''ffffffffff'' 0 1 ''helix'' ''red'' =
       (Inl NotFound, store_after_upload)"
    by simp
  from 1 2 3 show ?thesis by simp
qed

text \<open>
  C10. A protein whose stored sequence is empty accepts no annotation: no pair of integers
  is in bounds for length 0, and every request against it fails with InvalidRange.
\<close>

theorem empty_sequence_rejects_every_range:
  "\<not> in_bounds 0 a b
   \<and> (protein_by_slug st s = Some p \<and> sequence p = [] \<longrightarrow>
        add_annotation st now s a b l c = (Inl InvalidRange, st))"
proof (intro conjI impI)
  show "\<not> in_bounds 0 a b" by (auto simp: in_bounds_def)
next
  assume "protein_by_slug st s = Some p \<and> sequence p = []"
  then show "add_annotation st now s a b l c = (Inl InvalidRange, st)"
    by (intro add_annotation_invalid) (auto simp: in_bounds_def)
qed

theorem empty_sequence_rejects_every_range_witness:
  "map sequence (proteins store_with_empty_sequence) = [[]]
   \<and> add_annotation store_with_empty_sequence 2 ''0123456789'' 0 0 ''site'' ''blue''
       = (Inl InvalidRange, store_with_empty_sequence)"
proof -
  let ?p = "\<lparr>p_id = 1, slug = ''0123456789'', filename = ''0123456789.pdb'', sequence = [],
           p_created_at = 1\<rparr>"
  have f: "protein_by_slug store_with_empty_sequence ''0123456789'' = Some ?p" by code_simp
  have m: "map sequence (proteins store_with_empty_sequence) = [[]]" by code_simp
  from empty_sequence_rejects_every_range
         [of 0 0 store_with_empty_sequence "''0123456789''" ?p 2 "''site''" "''blue''"] f
  have "add_annotation store_with_empty_sequence 2 ''0123456789'' 0 0 ''site'' ''blue''
       = (Inl InvalidRange, store_with_empty_sequence)" by simp
  with m show ?thesis by simp
qed

text \<open>
  C9. The view returns the annotations of the protein, each row once, in ascending order of
  \<^verbatim>\<open>created_at\<close>; an annotation created no earlier than all the stored ones is listed
  after the ones the view listed before.
\<close>

theorem view_orders_annotations_by_created_at:
  "(view_protein st s scheme host = Inr (TemplateResponse t pg) \<longrightarrow>
      page_annotations pg = map ann_data (query_annotations st (page_protein pg))
      \<and> sorted (map created_at (query_annotations st (page_protein pg)))
      \<and> mset (query_annotations st (page_protein pg))
          = mset (filter (\<lambda>x. protein_id x = p_id (page_protein pg)) (annotations st)))
   \<and> (protein_by_slug st s = Some p \<and> in_bounds (int (length (sequence p))) a b
        \<and> (\<forall>x \<in> set (annotations st). created_at x \<le> now) \<longrightarrow>
       query_annotations (snd (add_annotation st now s a b l c)) p
         = query_annotations st p @
             [\<lparr>a_id = next_pk (map a_id (annotations st)), protein_id = p_id p,
               start_index = a, end_index = b, label = l, color = c, created_at = now\<rparr>])"
proof (intro conjI impI)
  assume v: "view_protein st s scheme host = Inr (TemplateResponse t pg)"
  then show "page_annotations pg = map ann_data (query_annotations st (page_protein pg))"
    by (auto simp: view_protein_def split: option.splits)
  show "sorted (map created_at (query_annotations st (page_protein pg)))"
    by (rule query_annotations_sorted)
  show "mset (query_annotations st (page_protein pg))
          = mset (filter (\<lambda>x. protein_id x = p_id (page_protein pg)) (annotations st))"
    by (rule query_annotations_mset)
next
  assume h: "protein_by_slug st s = Some p \<and> in_bounds (int (length (sequence p))) a b
        \<and> (\<forall>x \<in> set (annotations st). created_at x \<le> now)"
  let ?new = "\<lparr>a_id = next_pk (map a_id (annotations st)), protein_id = p_id p,
               start_index = a, end_index = b, label = l, color = c, created_at = now\<rparr>"
  from h have "snd (add_annotation st now s a b l c) = st\<lparr>annotations := annotations st @ [?new]\<rparr>"
    by (simp add: add_annotation_valid)
  moreover from h have "query_annotations (st\<lparr>annotations := annotations st @ [?new]\<rparr>) p
         = query_annotations st p @ [?new]"
    by (intro query_annotations_snoc) simp_all
  ultimately show "query_annotations (snd (add_annotation st now s a b l c)) p
         = query_annotations st p @ [?new]" by simp
qed

theorem view_orders_annotations_by_created_at_witness:
  "view_protein store_with_two_annotations ''0123456789'' ''http'' (Some ''example.org'') =
     Inr (TemplateResponse ''protein.html''
       \<lparr>page_protein = \<lparr>p_id = 1, slug = ''0123456789'', filename = ''0123456789.pdb'',
                        sequence = ''AG'', p_created_at = 1\<rparr>,
        page_annotations = [(2, 0, 0, ''early'', ''blue''), (1, 0, 1, ''late'', ''red'')],
        pdb_url = ''/uploads/0123456789.pdb'',
        share_url = ''http://example.org/p/0123456789''\<rparr>)
   \<and> sorted (map created_at (query_annotations store_with_two_annotations
        \<lparr>p_id = 1, slug = ''0123456789'', filename = ''0123456789.pdb'',
          sequence = ''AG'', p_created_at = 1\<rparr>))
   \<and> map created_at (annotations store_with_two_annotations) = [5, 3]
   \<and> map created_at (annotations store_with_one_annotation) = [3]
   \<and> query_annotations
        (snd (add_annotation store_with_one_annotation 5 ''0123456789'' 0 1 ''late'' ''red''))
        \<lparr>p_id = 1, slug = ''0123456789'', filename = ''0123456789.pdb'',
          sequence = ''AG'', p_created_at = 1\<rparr>
       = [\<lparr>a_id = 1, protein_id = 1, start_index = 0, end_index = 0, label = ''early'',
            color = ''blue'', created_at = 3\<rparr>,
          \<lparr>a_id = 2, protein_id = 1, start_index = 0, end_index = 1, label = ''late'',
            color = ''red'', created_at = 5\<rparr>]"
proof -
  let ?p = "\<lparr>p_id = 1, slug = ''0123456789'', filename = ''0123456789.pdb'',
             sequence = ''AG'', p_created_at = 1\<rparr>"
  let ?pg = "\<lparr>page_protein = ?p,
        page_annotations = [(2, 0, 0, ''early'', ''blue''), (1, 0, 1, ''late'', ''red'')],
        pdb_url = ''/uploads/0123456789.pdb'',
        share_url = ''http://example.org/p/0123456789''\<rparr>"
  let ?early = "\<lparr>a_id = 1, protein_id = 1, start_index = 0, end_index = 0, label = ''early'',
            color = ''blue'', created_at = 3\<rparr>"
  have v: "view_protein store_with_two_annotations ''0123456789'' ''http'' (Some ''example.org'') =
     Inr (TemplateResponse ''protein.html'' ?pg)"
    by code_simp
  have c: "map created_at (annotations store_with_two_annotations) = [5, 3]" by code_simp
  from view_orders_annotations_by_created_at
         [of store_with_two_annotations "''0123456789''" "''http''" "Some ''example.org''"
             "''protein.html''" ?pg] v
  have s: "sorted (map created_at (query_annotations store_with_two_annotations ?p))" by simp
  have f: "protein_by_slug store_with_one_annotation ''0123456789'' = Some ?p" by code_simp
  have b: "in_bounds (int (length (sequence ?p))) 0 1" by (simp add: in_bounds_def)
  have one: "annotations store_with_one_annotation = [?early]" by code_simp
  then have before: "\<forall>x \<in> set (annotations store_with_one_annotation). created_at x \<le> 5"
    by simp
  have q: "query_annotations store_with_one_annotation ?p = [?early]" by code_simp
  from view_orders_annotations_by_created_at
         [of store_with_one_annotation "''0123456789''" _ _ _ _ ?p 0 1 5 "''late''" "''red''"]
       f b before
  have "query_annotations
          (snd (add_annotation store_with_one_annotation 5 ''0123456789'' 0 1 ''late'' ''red'')) ?p
        = query_annotations store_with_one_annotation ?p @
            [\<lparr>a_id = next_pk (map a_id (annotations store_with_one_annotation)), protein_id = p_id ?p,
              start_index = 0, end_index = 1, label = ''late'', color = ''red'', created_at = 5\<rparr>]"
    by blast
  with q one have a: "query_annotations
          (snd (add_annotation store_with_one_annotation 5 ''0123456789'' 0 1 ''late'' ''red'')) ?p
        = [?early, \<lparr>a_id = 2, protein_id = 1, start_index = 0, end_index = 1, label = ''late'',
                     color = ''red'', created_at = 5\<rparr>]"
    by (simp add: next_pk_def)
  from one have "map created_at (annotations store_with_one_annotation) = [3]" by simp
  with v s c a show ?thesis by simp
qed

section \<open>Claims about upload\<close>

text \<open>
  C7, as the code has it. The file name is lowercased before the test, so upload rejects
  with InvalidInput exactly when the lowercased name does not end with \<^verbatim>\<open>.pdb\<close>, that
  is, when the name does not end with a dot followed by the letters p, d, b in either
  case; a rejected upload leaves the store as it was, with no row and no file. A name that
  ends with \<^verbatim>\<open>.pdb\<close> as written is always accepted.
\<close>

theorem upload_rejects_by_lowercased_extension:
  "(fst (upload_pdb st u now f c) = Inl InvalidInput \<longleftrightarrow> \<not> endswith (lower f) ''.pdb'')
   \<and> (\<not> endswith (lower f) ''.pdb'' \<longrightarrow> upload_pdb st u now f c = (Inl InvalidInput, st))
   \<and> (endswith (lower f) ''.pdb'' \<longleftrightarrow>
        (\<exists>stem p d b. f = stem @ [CHR ''.'', p, d, b]
           \<and> (p = CHR ''p'' \<or> p = CHR ''P'') \<and> (d = CHR ''d'' \<or> d = CHR ''D'')
           \<and> (b = CHR ''b'' \<or> b = CHR ''B'')))
   \<and> (has_pdb_extension f \<longrightarrow> endswith (lower f) ''.pdb'')"
proof (intro conjI impI)
  show "fst (upload_pdb st u now f c) = Inl InvalidInput \<longleftrightarrow> \<not> endswith (lower f) ''.pdb''"
    using upload_pdb_accepted[of f st u now c] upload_pdb_rejected[of f st u now c] by auto
next
  assume "\<not> endswith (lower f) ''.pdb''"
  then show "upload_pdb st u now f c = (Inl InvalidInput, st)" by (rule upload_pdb_rejected)
next
  show "endswith (lower f) ''.pdb'' \<longleftrightarrow>
        (\<exists>stem p d b. f = stem @ [CHR ''.'', p, d, b]
           \<and> (p = CHR ''p'' \<or> p = CHR ''P'') \<and> (d = CHR ''d'' \<or> d = CHR ''D'')
           \<and> (b = CHR ''b'' \<or> b = CHR ''B''))"
    by (rule endswith_lower_pdb)
next
  assume "has_pdb_extension f"
  then show "endswith (lower f) ''.pdb''" by (rule has_pdb_extension_accepted)
qed

theorem upload_rejects_by_lowercased_extension_witness:
  "\<not> endswith (lower ''notes.txt'') ''.pdb''
   \<and> upload_pdb empty_store example_uuid 1 ''notes.txt'' example_ala_ala_gly
       = (Inl InvalidInput, empty_store)
   \<and> has_pdb_extension ''1abc.pdb''
   \<and> fst (upload_pdb empty_store example_uuid 1 ''1abc.pdb'' example_ala_ala_gly) \<noteq> Inl InvalidInput"
proof -
  have n: "\<not> endswith (lower ''notes.txt'') ''.pdb''" by code_simp
  have y: "has_pdb_extension ''1abc.pdb''" by code_simp
  note rej = upload_rejects_by_lowercased_extension
    [of empty_store example_uuid 1 "''notes.txt''" example_ala_ala_gly]
  note acc = upload_rejects_by_lowercased_extension
    [of empty_store example_uuid 1 "''1abc.pdb''" example_ala_ala_gly]
  from rej n have 1: "upload_pdb empty_store example_uuid 1 ''notes.txt'' example_ala_ala_gly
       = (Inl InvalidInput, empty_store)" by blast
  from acc y have 2: "fst (upload_pdb empty_store example_uuid 1 ''1abc.pdb'' example_ala_ala_gly)
       \<noteq> Inl InvalidInput" by blast
  from n 1 y 2 show ?thesis by simp
qed

text \<open>
  C7 as stated says that only names ending with \<^verbatim>\<open>.pdb\<close> are accepted. The name
  \<^verbatim>\<open>A.PDB\<close> does not end with \<^verbatim>\<open>.pdb\<close>, and its upload succeeds: the file is stored
  and the row is created.
\<close>

theorem upload_accepts_capital_extension:
  "\<not> has_pdb_extension ''A.PDB''
   \<and> fst (upload_pdb empty_store example_uuid 1 ''A.PDB'' example_ala_ala_gly)
       = Inr (RedirectResponse ''/p/0123456789'' 303)
   \<and> map sequence (proteins (snd (upload_pdb empty_store example_uuid 1 ''A.PDB'' example_ala_ala_gly)))
       = [''AG'']
   \<and> uploads (snd (upload_pdb empty_store example_uuid 1 ''A.PDB'' example_ala_ala_gly))
        ''0123456789.pdb'' = Some example_ala_ala_gly"
  by code_simp

text \<open>
  C8. A slug collision is claimed to overwrite nothing. The second upload with the slug of
  an existing row does raise \<^verbatim>\<open>IntegrityError\<close> and the table is unchanged, but the file
  was written before the insert: the file of the existing row now holds the content of the
  failed upload.
\<close>

theorem slug_collision_overwrites_file:
  "fst (upload_pdb store_after_upload example_uuid 2 ''second.pdb'' example_xyz) = Inl IntegrityError
   \<and> proteins (snd (upload_pdb store_after_upload example_uuid 2 ''second.pdb'' example_xyz))
       = proteins store_after_upload
   \<and> map filename (proteins store_after_upload) = [''0123456789.pdb'']
   \<and> uploads store_after_upload ''0123456789.pdb'' = Some example_ala_ala_gly
   \<and> uploads (snd (upload_pdb store_after_upload example_uuid 2 ''second.pdb'' example_xyz))
        ''0123456789.pdb'' = Some example_xyz
   \<and> example_xyz \<noteq> example_ala_ala_gly"
  by code_simp

end
